theory Spec2Isabelle
  imports Main "HOL-Library.Monad_Syntax"
begin

section \<open>Kana to romaji transliteration (kana_romaji.py)\<close>

text \<open>
  A Python \<open>str\<close> is a sequence of Unicode code points. A character is modelled by its
  code point, a natural number, and a string by the list of its code points. An
  exception raised by the Python code is the value \<open>None\<close>.
\<close>

type_synonym uchar = nat
type_synonym ustr = "uchar list"

text \<open>ASCII literals: \<open>str ''ka''\<close> is the Python string \<open>"ka"\<close>.\<close>

definition str :: "string \<Rightarrow> ustr" where
  "str s = map of_char s"

text \<open>\<open>s[i]\<close> for a non-negative index: IndexError out of range.\<close>

definition char_at :: "'a list \<Rightarrow> nat \<Rightarrow> 'a option" where
  "char_at s i = (if i < length s then Some (s ! i) else None)"

text \<open>\<open>chr(k)\<close>: ValueError outside \<open>range(0x110000)\<close>.\<close>

definition py_chr :: "int \<Rightarrow> uchar option" where
  "py_chr k = (if 0 \<le> k \<and> k < 0x110000 then Some (nat k) else None)"

text \<open>
  \<open>str.isalpha\<close> and \<open>str.lower\<close> on one character, given on the ASCII range. The
  scanning loop applies them only to the first character of a table value, and every
  table value is made of lower-case ASCII letters (lemma \<open>chunk_lowercase\<close> below).
\<close>

definition isalpha :: "uchar \<Rightarrow> bool" where
  "isalpha c = ((0x41 \<le> c \<and> c \<le> 0x5A) \<or> (0x61 \<le> c \<and> c \<le> 0x7A))"

definition lower :: "uchar \<Rightarrow> uchar" where
  "lower c = (if 0x41 \<le> c \<and> c \<le> 0x5A then c + 0x20 else c)"

subsection \<open>Normalisation\<close>

definition kata_to_hira :: "uchar \<Rightarrow> uchar option" where
  "kata_to_hira ch =
     (let code = int ch in
      if 0x30A1 \<le> code \<and> code \<le> 0x30F6 then py_chr (code - 0x60) else Some ch)"

text \<open>\<open>"".join(_kata_to_hira(ch) for ch in text)\<close>: the characters in order; an
  exception in one of the calls ends the whole expression.\<close>

fun normalize :: "ustr \<Rightarrow> ustr option" where
  "normalize [] = Some []"
| "normalize (ch # text) =
     do { h \<leftarrow> kata_to_hira ch; hs \<leftarrow> normalize text; Some (h # hs) }"

subsection \<open>The tables\<close>

text \<open>The three characters the loop treats specially: small tsu (U+3063), the
  moraic n (U+3093) and the prolonged sound mark (U+30FC).\<close>

definition SOKUON :: uchar where "SOKUON = 0x3063"
definition MORAIC_N :: uchar where "MORAIC_N = 0x3093"
definition CHOON :: uchar where "CHOON = 0x30FC"

text \<open>The digraph table, keyed by the two-character string: ki, gi, shi, ji, chi, ni,
  hi, bi, pi, mi, ri, each followed by small ya (U+3083), yu (U+3085) or yo (U+3087).\<close>

definition HIRA_DIGRAPHS_items :: "(ustr \<times> ustr) list" where
  "HIRA_DIGRAPHS_items = [
    ([0x304D, 0x3083], str ''kya''), ([0x304D, 0x3085], str ''kyu''), ([0x304D, 0x3087], str ''kyo''),
    ([0x304E, 0x3083], str ''gya''), ([0x304E, 0x3085], str ''gyu''), ([0x304E, 0x3087], str ''gyo''),
    ([0x3057, 0x3083], str ''sha''), ([0x3057, 0x3085], str ''shu''), ([0x3057, 0x3087], str ''sho''),
    ([0x3058, 0x3083], str ''ja''), ([0x3058, 0x3085], str ''ju''), ([0x3058, 0x3087], str ''jo''),
    ([0x3061, 0x3083], str ''cha''), ([0x3061, 0x3085], str ''chu''), ([0x3061, 0x3087], str ''cho''),
    ([0x306B, 0x3083], str ''nya''), ([0x306B, 0x3085], str ''nyu''), ([0x306B, 0x3087], str ''nyo''),
    ([0x3072, 0x3083], str ''hya''), ([0x3072, 0x3085], str ''hyu''), ([0x3072, 0x3087], str ''hyo''),
    ([0x3073, 0x3083], str ''bya''), ([0x3073, 0x3085], str ''byu''), ([0x3073, 0x3087], str ''byo''),
    ([0x3074, 0x3083], str ''pya''), ([0x3074, 0x3085], str ''pyu''), ([0x3074, 0x3087], str ''pyo''),
    ([0x307F, 0x3083], str ''mya''), ([0x307F, 0x3085], str ''myu''), ([0x307F, 0x3087], str ''myo''),
    ([0x308A, 0x3083], str ''rya''), ([0x308A, 0x3085], str ''ryu''), ([0x308A, 0x3087], str ''ryo'')
  ]"

definition HIRA_DIGRAPHS :: "ustr \<rightharpoonup> ustr" where
  "HIRA_DIGRAPHS = map_of HIRA_DIGRAPHS_items"

text \<open>The monograph table, in the order of the source: the gojuon rows, moraic n, the
  voiced rows, small vowels, small ya/yu/yo, and small tsu and the prolonged sound mark
  with the empty string.\<close>

definition HIRA_MONO_items :: "(uchar \<times> ustr) list" where
  "HIRA_MONO_items = [
    (0x3042, str ''a''), (0x3044, str ''i''), (0x3046, str ''u''), (0x3048, str ''e''), (0x304A, str ''o''),
    (0x304B, str ''ka''), (0x304D, str ''ki''), (0x304F, str ''ku''), (0x3051, str ''ke''), (0x3053, str ''ko''),
    (0x3055, str ''sa''), (0x3057, str ''shi''), (0x3059, str ''su''), (0x305B, str ''se''), (0x305D, str ''so''),
    (0x305F, str ''ta''), (0x3061, str ''chi''), (0x3064, str ''tsu''), (0x3066, str ''te''), (0x3068, str ''to''),
    (0x306A, str ''na''), (0x306B, str ''ni''), (0x306C, str ''nu''), (0x306D, str ''ne''), (0x306E, str ''no''),
    (0x306F, str ''ha''), (0x3072, str ''hi''), (0x3075, str ''fu''), (0x3078, str ''he''), (0x307B, str ''ho''),
    (0x307E, str ''ma''), (0x307F, str ''mi''), (0x3080, str ''mu''), (0x3081, str ''me''), (0x3082, str ''mo''),
    (0x3084, str ''ya''), (0x3086, str ''yu''), (0x3088, str ''yo''),
    (0x3089, str ''ra''), (0x308A, str ''ri''), (0x308B, str ''ru''), (0x308C, str ''re''), (0x308D, str ''ro''),
    (0x308F, str ''wa''), (0x3092, str ''o''),
    (0x3093, str ''n''),
    (0x304C, str ''ga''), (0x304E, str ''gi''), (0x3050, str ''gu''), (0x3052, str ''ge''), (0x3054, str ''go''),
    (0x3056, str ''za''), (0x3058, str ''ji''), (0x305A, str ''zu''), (0x305C, str ''ze''), (0x305E, str ''zo''),
    (0x3060, str ''da''), (0x3062, str ''ji''), (0x3065, str ''zu''), (0x3067, str ''de''), (0x3069, str ''do''),
    (0x3070, str ''ba''), (0x3073, str ''bi''), (0x3076, str ''bu''), (0x3079, str ''be''), (0x307C, str ''bo''),
    (0x3071, str ''pa''), (0x3074, str ''pi''), (0x3077, str ''pu''), (0x307A, str ''pe''), (0x307D, str ''po''),
    (0x3041, str ''a''), (0x3043, str ''i''), (0x3045, str ''u''), (0x3047, str ''e''), (0x3049, str ''o''),
    (0x3083, str ''ya''), (0x3085, str ''yu''), (0x3087, str ''yo''),
    (0x3063, []),
    (0x30FC, [])
  ]"

definition HIRA_MONO :: "uchar \<rightharpoonup> ustr" where
  "HIRA_MONO = map_of HIRA_MONO_items"

text \<open>\<open>_HIRA_MONO.get(ch, "")\<close>\<close>

definition mono_get :: "uchar \<Rightarrow> ustr" where
  "mono_get ch = (case HIRA_MONO ch of None \<Rightarrow> [] | Some rom \<Rightarrow> rom)"

subsection \<open>Lookahead\<close>

definition next_romaji_chunk :: "ustr \<Rightarrow> nat \<Rightarrow> ustr option" where
  "next_romaji_chunk hira pos =
     (if pos \<ge> length hira then Some []
      else do {
        ch \<leftarrow> char_at hira pos;
        if pos + 1 < length hira then do {
          c2 \<leftarrow> char_at hira (pos + 1);
          if HIRA_DIGRAPHS [ch, c2] \<noteq> None then HIRA_DIGRAPHS [ch, c2]
          else Some (mono_get ch)
        }
        else Some (mono_get ch)
      })"

subsection \<open>The macron pass\<close>

text \<open>
  \<open>s.replace(src, dst)\<close>: the occurrences of \<open>src\<close> are found from the left and do
  not overlap. For the empty pattern Python puts \<open>dst\<close> before every character and at
  the end.
\<close>

function str_replace :: "ustr \<Rightarrow> ustr \<Rightarrow> ustr \<Rightarrow> ustr" where
  "str_replace src dst s =
     (if src = [] then dst @ concat (map (\<lambda>c. c # dst) s)
      else if s = [] then []
      else if take (length src) s = src
        then dst @ str_replace src dst (drop (length src) s)
      else hd s # str_replace src dst (tl s))"
  by pat_completeness auto
termination
  by (relation "measure (\<lambda>(src, dst, s). length s)") auto

declare str_replace.simps [simp del]

text \<open>The macron letters: a, i, u, e, o with macron (U+0101, U+012B, U+016B, U+0113,
  U+014D).\<close>

definition repl :: "(ustr \<times> ustr) list" where
  "repl = [
    (str ''aa'', [0x0101]),
    (str ''ii'', [0x012B]),
    (str ''uu'', [0x016B]),
    (str ''ee'', [0x0113]),
    (str ''oo'', [0x014D]),
    (str ''ou'', [0x014D])
  ]"

definition apply_macrons :: "ustr \<Rightarrow> ustr" where
  "apply_macrons basic = foldl (\<lambda>s (src, dst). str_replace src dst s) basic repl"

subsection \<open>The scanning loop\<close>

text \<open>
  The backward scan of the prolonged-sound branch:
  \<open>for idx in range(len(last) - 1, -1, -1): if last[idx] in "aeiou": ...; break\<close>.
  The argument counts the indices still to visit; the result is the letter the loop
  appends, if it appends one.
\<close>

fun scan_back :: "ustr \<Rightarrow> nat \<Rightarrow> uchar option" where
  "scan_back last_chunk 0 = None"
| "scan_back last_chunk (Suc idx) =
     (if last_chunk ! idx \<in> set (str ''aeiou'') then Some (last_chunk ! idx)
      else scan_back last_chunk idx)"

text \<open>The last two branches of the loop body: the prolonged sound mark and the
  normal kana. The state is the cursor \<open>i\<close> and the list \<open>result\<close> of chunks.\<close>

definition choon_or_mono :: "uchar \<Rightarrow> nat \<times> ustr list \<Rightarrow> (nat \<times> ustr list) option" where
  "choon_or_mono ch s =
     (case s of (i, result) \<Rightarrow>
        if ch = CHOON then
          (if result \<noteq> [] then
             (case scan_back (last result) (length (last result)) of
                Some v \<Rightarrow> Some (i + 1, result @ [[v]])
              | None \<Rightarrow> Some (i + 1, result))
           else Some (i + 1, result))
        else
          (case HIRA_MONO ch of
             None \<Rightarrow> Some (i + 1, result @ [[ch]])
           | Some rom \<Rightarrow> Some (i + 1, result @ [rom])))"

text \<open>One iteration of \<open>while i < length\<close>, entered with \<open>i < length\<close>.\<close>

definition step :: "bool \<Rightarrow> ustr \<Rightarrow> nat \<times> ustr list \<Rightarrow> (nat \<times> ustr list) option" where
  "step use_m_before_bmp hira s =
     (case s of (i, result) \<Rightarrow> do {
        ch \<leftarrow> char_at hira i;
        if ch = SOKUON then
          (if i + 1 < length hira then do {
             next_chunk \<leftarrow> next_romaji_chunk hira (i + 1);
             if next_chunk \<noteq> [] then do {
               c \<leftarrow> char_at next_chunk 0;
               Some (i + 1, if isalpha c then result @ [[c]] else result)
             }
             else Some (i + 1, result)
           }
           else Some (i + 1, result))
        else if ch = MORAIC_N then
          (if i + 1 \<ge> length hira then Some (i + 1, result @ [str ''n''])
           else do {
             next_chunk \<leftarrow> next_romaji_chunk hira (i + 1);
             if next_chunk = [] then Some (i + 1, result @ [str ''n''])
             else do {
               c \<leftarrow> char_at next_chunk 0;
               let first = lower c;
               if first \<in> set (str ''aeiouy'')
                 then Some (i + 1, result @ [str (''n'' @ [CHR 0x27])])
               else if first \<in> set (str ''bmp'') then
                 (if use_m_before_bmp then Some (i + 1, result @ [str ''m''])
                  else Some (i + 1, result @ [str ''n'']))
               else Some (i + 1, result @ [str ''n''])
             }
           })
        else if i + 1 < length hira then do {
          c2 \<leftarrow> char_at hira (i + 1);
          if HIRA_DIGRAPHS [ch, c2] \<noteq> None then do {
            rom \<leftarrow> HIRA_DIGRAPHS [ch, c2];
            Some (i + 2, result @ [rom])
          }
          else choon_or_mono ch (i, result)
        }
        else choon_or_mono ch (i, result)
      })"

text \<open>
  The loop \<open>while i < length\<close>, returning the final cursor and buffer. Every iteration
  moves the cursor forward, which is why the recursion ends.
\<close>

function scan :: "bool \<Rightarrow> ustr \<Rightarrow> nat \<times> ustr list \<Rightarrow> (nat \<times> ustr list) option" where
  "scan use_m_before_bmp hira s =
     (if fst s < length hira then
        (case step use_m_before_bmp hira s of
           None \<Rightarrow> None
         | Some s' \<Rightarrow> scan use_m_before_bmp hira s')
      else Some s)"
  by pat_completeness auto
termination
proof (relation "measure (\<lambda>(b, hira, s). length hira - fst s)")
  show "wf (measure (\<lambda>(b, hira, s). length hira - fst s))" by simp
next
  fix b :: bool and hira :: ustr and s s' :: "nat \<times> ustr list"
  assume lt: "fst s < length hira" and st: "step b hira s = Some s'"
  obtain i r where s: "s = (i, r)" by (cases s)
  obtain i' r' where s': "s' = (i', r')" by (cases s')
  from st s s' have "i < i'"
    by (auto simp: step_def choon_or_mono_def char_at_def Let_def
             split: if_splits option.splits bind_splits)
  with lt s s'
  show "((b, hira, s'), (b, hira, s)) \<in> measure (\<lambda>(b, hira, s). length hira - fst s)"
    by simp
qed

declare scan.simps [simp del]

text \<open>The value of the variable \<open>basic\<close>: the text is normalised, scanned from cursor 0
  with an empty buffer, and the chunks are joined.\<close>

definition basic :: "bool \<Rightarrow> ustr \<Rightarrow> ustr option" where
  "basic use_m_before_bmp text = do {
     hira \<leftarrow> normalize text;
     s \<leftarrow> scan use_m_before_bmp hira (0, []);
     Some (concat (snd s))
   }"

text \<open>The entry point. The empty text returns at once.\<close>

definition kana_to_romaji :: "bool \<Rightarrow> bool \<Rightarrow> ustr \<Rightarrow> ustr option" where
  "kana_to_romaji use_macrons use_m_before_bmp text =
     (if text = [] then Some []
      else do {
        b \<leftarrow> basic use_m_before_bmp text;
        if use_macrons then Some (apply_macrons b) else Some b
      })"

subsection \<open>Vocabulary of the properties\<close>

text \<open>The states the loop passes through on \<open>hira\<close>: it starts with cursor 0 and an
  empty buffer, and each iteration entered with the cursor inside the string leads to
  the next state.\<close>

inductive reach :: "bool \<Rightarrow> ustr \<Rightarrow> nat \<times> ustr list \<Rightarrow> bool"
  for use_m_before_bmp :: bool and hira :: ustr where
  start: "reach use_m_before_bmp hira (0, [])"
| iter: "reach use_m_before_bmp hira s \<Longrightarrow> fst s < length hira \<Longrightarrow>
         step use_m_before_bmp hira s = Some s' \<Longrightarrow> reach use_m_before_bmp hira s'"

text \<open>The lower-case ASCII letters.\<close>

definition lowercase :: "uchar set" where
  "lowercase = {c. 0x61 \<le> c \<and> c \<le> 0x7A}"

text \<open>The range of code points that \<open>_kata_to_hira\<close> shifts.\<close>

definition katakana :: "uchar \<Rightarrow> bool" where
  "katakana c = (0x30A1 \<le> c \<and> c \<le> 0x30F6)"

section \<open>Facts about the tables\<close>

lemma mono_items_lowercase:
  "list_all (\<lambda>(k, v). set v \<subseteq> lowercase) HIRA_MONO_items"
  by (simp add: HIRA_MONO_items_def str_def lowercase_def)

lemma digraph_items_shape:
  "list_all (\<lambda>(k, v). v \<noteq> [] \<and> set v \<subseteq> lowercase \<and> length k = 2
      \<and> hd k \<in> {0x304D, 0x304E, 0x3057, 0x3058, 0x3061, 0x306B, 0x3072, 0x3073, 0x3074, 0x307F, 0x308A}
      \<and> k ! 1 \<in> {0x3083, 0x3085, 0x3087}) HIRA_DIGRAPHS_items"
  by (simp add: HIRA_DIGRAPHS_items_def str_def lowercase_def)

lemma mono_lowercase: "HIRA_MONO c = Some v \<Longrightarrow> set v \<subseteq> lowercase"
  using mono_items_lowercase
  by (auto simp: HIRA_MONO_def list_all_iff dest!: map_of_SomeD)

lemma mono_get_lowercase: "set (mono_get c) \<subseteq> lowercase"
proof (cases "HIRA_MONO c")
  case None
  then show ?thesis by (simp add: mono_get_def)
next
  case (Some v)
  then show ?thesis using mono_lowercase [OF Some] by (simp add: mono_get_def)
qed

lemma digraph_shape:
  assumes "HIRA_DIGRAPHS k = Some v"
  shows "v \<noteq> [] \<and> set v \<subseteq> lowercase \<and> length k = 2
      \<and> hd k \<in> {0x304D, 0x304E, 0x3057, 0x3058, 0x3061, 0x306B, 0x3072, 0x3073, 0x3074, 0x307F, 0x308A}
      \<and> k ! 1 \<in> {0x3083, 0x3085, 0x3087}"
proof -
  from assms have "(k, v) \<in> set HIRA_DIGRAPHS_items"
    by (simp add: HIRA_DIGRAPHS_def map_of_SomeD)
  with digraph_items_shape show ?thesis
    by (auto simp: list_all_iff)
qed

lemma digraph_first:
  assumes "HIRA_DIGRAPHS [a, c] = Some v"
  shows "a \<noteq> SOKUON" "a \<noteq> MORAIC_N" "a \<noteq> CHOON" "\<not> katakana a"
  using digraph_shape [OF assms]
  by (auto simp: SOKUON_def MORAIC_N_def CHOON_def katakana_def)

lemma digraph_second:
  assumes "HIRA_DIGRAPHS [a, c] = Some v"
  shows "c \<in> {0x3083, 0x3085, 0x3087}"
  using digraph_shape [OF assms] by simp

lemma small_y_mono:
  "c \<in> {0x3083, 0x3085, 0x3087} \<Longrightarrow> HIRA_MONO c \<noteq> None"
  by (auto simp: HIRA_MONO_def HIRA_MONO_items_def)

lemma special_mono:
  "HIRA_MONO SOKUON \<noteq> None" "HIRA_MONO MORAIC_N \<noteq> None" "HIRA_MONO CHOON \<noteq> None"
  by (simp_all add: HIRA_MONO_def HIRA_MONO_items_def SOKUON_def MORAIC_N_def CHOON_def)

section \<open>The lookahead\<close>

lemma next_romaji_chunk_eq:
  "next_romaji_chunk hira pos = Some
     (if pos < length hira then
        (if pos + 1 < length hira then
           (case HIRA_DIGRAPHS [hira ! pos, hira ! (pos + 1)] of
              Some rom \<Rightarrow> rom | None \<Rightarrow> mono_get (hira ! pos))
         else mono_get (hira ! pos))
      else [])"
  by (auto simp: next_romaji_chunk_def char_at_def split: option.splits)

lemma chunk_lowercase:
  assumes "next_romaji_chunk hira pos = Some c"
  shows "set c \<subseteq> lowercase"
proof -
  have "set (mono_get (hira ! pos)) \<subseteq> lowercase" by (rule mono_get_lowercase)
  moreover have "\<And>k v. HIRA_DIGRAPHS k = Some v \<Longrightarrow> set v \<subseteq> lowercase"
    using digraph_shape by blast
  ultimately show ?thesis using assms
    by (auto simp: next_romaji_chunk_eq split: if_splits option.splits)
qed

lemma lowercase_isalpha: "c \<in> lowercase \<Longrightarrow> isalpha c"
  by (simp add: lowercase_def isalpha_def)

lemma lowercase_lower: "c \<in> lowercase \<Longrightarrow> lower c = c"
  by (simp add: lowercase_def lower_def)

lemma chunk_head:
  assumes "next_romaji_chunk hira pos = Some chunk" "chunk \<noteq> []"
  shows "char_at chunk 0 = Some (hd chunk)" "isalpha (hd chunk)" "lower (hd chunk) = hd chunk"
proof -
  from assms(2) show "char_at chunk 0 = Some (hd chunk)"
    by (cases chunk) (simp_all add: char_at_def)
  from chunk_lowercase [OF assms(1)] assms(2) have "hd chunk \<in> lowercase"
    by (cases chunk) auto
  then show "isalpha (hd chunk)" "lower (hd chunk) = hd chunk"
    by (simp_all add: lowercase_isalpha lowercase_lower)
qed

section \<open>One iteration, branch by branch\<close>

lemma step_sokuon:
  assumes "i < length hira" "hira ! i = SOKUON" "next_romaji_chunk hira (i + 1) = Some chunk"
  shows "step b hira (i, result) =
           Some (i + 1, if chunk \<noteq> [] then result @ [[hd chunk]] else result)"
proof (cases "chunk = []")
  case True
  with assms show ?thesis by (simp add: step_def char_at_def)
next
  case False
  with assms(3) have "i + 1 < length hira"
    by (auto simp: next_romaji_chunk_eq split: if_splits)
  with assms False chunk_head [OF assms(3) False] show ?thesis
    by (simp add: step_def char_at_def)
qed

lemma step_nasal:
  assumes "i < length hira" "hira ! i = MORAIC_N" "next_romaji_chunk hira (i + 1) = Some chunk"
  shows "step b hira (i, result) = Some (i + 1, result @ [
           if i + 1 = length hira then str ''n''
           else if chunk = [] then str ''n''
           else if hd chunk \<in> set (str ''aeiouy'') then str (''n'' @ [CHR 0x27])
           else if hd chunk \<in> set (str ''bmp'') then (if b then str ''m'' else str ''n'')
           else str ''n''])"
proof (cases "chunk = []")
  case True
  with assms show ?thesis
    by (simp add: step_def char_at_def SOKUON_def MORAIC_N_def)
next
  case False
  with assms(3) have "i + 1 < length hira"
    by (auto simp: next_romaji_chunk_eq split: if_splits)
  with assms False chunk_head [OF assms(3) False] show ?thesis
    by (simp add: step_def char_at_def SOKUON_def MORAIC_N_def Let_def)
qed

lemma step_digraph:
  assumes "i + 1 < length hira" "HIRA_DIGRAPHS [hira ! i, hira ! (i + 1)] = Some rom"
  shows "step b hira (i, result) = Some (i + 2, result @ [rom])"
  using assms digraph_first [OF assms(2)]
  by (simp add: step_def char_at_def)

lemma step_other:
  assumes "i < length hira" "hira ! i \<noteq> SOKUON" "hira ! i \<noteq> MORAIC_N"
    "i + 1 < length hira \<longrightarrow> HIRA_DIGRAPHS [hira ! i, hira ! (i + 1)] = None"
  shows "step b hira (i, result) = choon_or_mono (hira ! i) (i, result)"
  using assms by (simp add: step_def char_at_def)

section \<open>The loop\<close>

lemma choon_or_mono_total:
  "\<exists>more. choon_or_mono ch (i, result) = Some (i + 1, result @ more)"
  by (auto simp: choon_or_mono_def split: option.splits)

text \<open>Every iteration succeeds, moves the cursor by one or two without passing the
  end, and only appends to the buffer.\<close>

lemma step_total:
  assumes "i < length hira"
  shows "\<exists>more. step b hira (i, result) =
           Some (if i + 1 < length hira \<and> HIRA_DIGRAPHS [hira ! i, hira ! (i + 1)] \<noteq> None
                 then i + 2 else i + 1, result @ more)"
proof -
  obtain chunk where chunk: "next_romaji_chunk hira (i + 1) = Some chunk"
    by (simp add: next_romaji_chunk_eq)
  show ?thesis
  proof (cases "i + 1 < length hira \<and> HIRA_DIGRAPHS [hira ! i, hira ! (i + 1)] \<noteq> None")
    case True
    then obtain rom where "HIRA_DIGRAPHS [hira ! i, hira ! (i + 1)] = Some rom" by auto
    with True show ?thesis by (simp add: step_digraph)
  next
    case False
    then have nd: "i + 1 < length hira \<longrightarrow> HIRA_DIGRAPHS [hira ! i, hira ! (i + 1)] = None"
      by simp
    consider "hira ! i = SOKUON" | "hira ! i = MORAIC_N"
      | "hira ! i \<noteq> SOKUON" "hira ! i \<noteq> MORAIC_N" by blast
    then show ?thesis
    proof cases
      case 1
      show ?thesis using False by (simp add: step_sokuon [OF assms 1 chunk])
    next
      case 2
      show ?thesis using False by (simp add: step_nasal [OF assms 2 chunk])
    next
      case 3
      from False have "(if i + 1 < length hira \<and> HIRA_DIGRAPHS [hira ! i, hira ! (i + 1)] \<noteq> None
                 then i + 2 else i + 1) = i + 1" by simp
      with choon_or_mono_total [of "hira ! i" i result] show ?thesis
        by (simp only: step_other [OF assms 3 nd])
    qed
  qed
qed

lemma scan_iter:
  "fst s < length hira \<Longrightarrow> step b hira s = Some s' \<Longrightarrow> scan b hira s = scan b hira s'"
  by (subst scan.simps) simp

lemma scan_stop: "\<not> fst s < length hira \<Longrightarrow> scan b hira s = Some s"
  by (subst scan.simps) simp

lemma scan_total:
  "fst s \<le> length hira \<Longrightarrow> \<exists>more. scan b hira s = Some (length hira, snd s @ more)"
proof (induction b hira s rule: scan.induct)
  case (1 b hira s)
  obtain i result where s: "s = (i, result)" by (cases s)
  show ?case
  proof (cases "i < length hira")
    case False
    with "1.prems" s have "i = length hira" by simp
    with s show ?thesis by (simp add: scan_stop)
  next
    case True
    from step_total [OF True, of b result] obtain i' more where
      st: "step b hira s = Some (i', result @ more)" and i': "i' \<le> length hira"
      using s True by (auto split: if_splits)
    from True s have lt: "fst s < length hira" by simp
    from "1.IH" [OF lt st] i' obtain more' where
      "scan b hira (i', result @ more) = Some (length hira, (result @ more) @ more')"
      by auto
    with scan_iter [OF lt st] s show ?thesis by auto
  qed
qed

lemma reach_scan: "reach b hira s \<Longrightarrow> scan b hira s = scan b hira (0, [])"
  by (induction rule: reach.induct) (simp_all add: scan_iter)

lemma reach_bound: "reach b hira s \<Longrightarrow> fst s \<le> length hira"
proof (induction rule: reach.induct)
  case start
  show ?case by simp
next
  case (iter s s')
  obtain i result where s: "s = (i, result)" by (cases s)
  with iter.hyps(2) have lt: "i < length hira" by simp
  from step_total [OF lt, of b result] iter.hyps(3) s lt show ?case
    by (auto split: if_splits)
qed

text \<open>The final buffer extends the buffer of every state passed through.\<close>

lemma reach_final:
  assumes "reach b hira s"
  shows "\<exists>more. scan b hira (0, []) = Some (length hira, snd s @ more)"
  using scan_total [OF reach_bound [OF assms], of b] reach_scan [OF assms] by simp

text \<open>The cursor passes through every position, except the second character of a
  digraph it has just matched.\<close>

lemma reach_or_skipped:
  "j \<le> length hira \<Longrightarrow>
     (\<exists>r. reach b hira (j, r)) \<or>
     (0 < j \<and> j < length hira \<and> HIRA_DIGRAPHS [hira ! (j - 1), hira ! j] \<noteq> None
        \<and> (\<exists>r. reach b hira (j - 1, r)))"
proof (induction j)
  case 0
  show ?case using reach.start by blast
next
  case (Suc j)
  then have lt: "j < length hira" by simp
  from Suc have "(\<exists>r. reach b hira (j, r)) \<or>
     (0 < j \<and> j < length hira \<and> HIRA_DIGRAPHS [hira ! (j - 1), hira ! j] \<noteq> None
        \<and> (\<exists>r. reach b hira (j - 1, r)))" by simp
  then show ?case
  proof
    assume "\<exists>r. reach b hira (j, r)"
    then obtain r where r: "reach b hira (j, r)" ..
    show ?thesis
    proof (cases "j + 1 < length hira \<and> HIRA_DIGRAPHS [hira ! j, hira ! (j + 1)] \<noteq> None")
      case True
      with r show ?thesis by auto
    next
      case False
      with step_total [OF lt, of b r] obtain more where
        "step b hira (j, r) = Some (Suc j, r @ more)" by auto
      from reach.iter [OF r _ this] lt show ?thesis by auto
    qed
  next
    assume a: "0 < j \<and> j < length hira \<and> HIRA_DIGRAPHS [hira ! (j - 1), hira ! j] \<noteq> None
        \<and> (\<exists>r. reach b hira (j - 1, r))"
    then obtain r where r: "reach b hira (j - 1, r)" by blast
    from a have j0: "0 < j" and jl: "j < length hira" by simp_all
    then have lt': "j - 1 < length hira" and j: "j - 1 + 1 = j" by arith+
    with a step_total [of "j - 1" hira b r] obtain more where
      st: "step b hira (j - 1, r) = Some (Suc j, r @ more)" by auto
    from lt' have "fst (j - 1, r) < length hira" by simp
    from reach.iter [OF r this st] show ?thesis by blast
  qed
qed

lemma reach_visits:
  assumes "j < length hira" "hira ! j \<notin> {0x3083, 0x3085, 0x3087}"
  shows "\<exists>r. reach b hira (j, r)"
proof -
  have "\<not> (0 < j \<and> j < length hira \<and> HIRA_DIGRAPHS [hira ! (j - 1), hira ! j] \<noteq> None
        \<and> (\<exists>r. reach b hira (j - 1, r)))"
  proof
    assume "0 < j \<and> j < length hira \<and> HIRA_DIGRAPHS [hira ! (j - 1), hira ! j] \<noteq> None
        \<and> (\<exists>r. reach b hira (j - 1, r))"
    then obtain rom where "HIRA_DIGRAPHS [hira ! (j - 1), hira ! j] = Some rom" by auto
    from digraph_second [OF this] assms(2) show False by simp
  qed
  with reach_or_skipped [of j hira b] assms(1) show ?thesis by auto
qed

section \<open>Normalisation and the entry point\<close>

lemma kata_to_hira_eq:
  "kata_to_hira ch = Some (if katakana ch then ch - 0x60 else ch)"
  by (auto simp: kata_to_hira_def py_chr_def katakana_def Let_def nat_diff_distrib)

lemma normalize_eq:
  "normalize text = Some (map (\<lambda>c. if katakana c then c - 0x60 else c) text)"
  by (induction "text") (simp_all add: kata_to_hira_eq)

lemma shifted_not_katakana: "\<not> katakana (if katakana c then c - 0x60 else c)"
  by (auto simp: katakana_def)

lemma basic_total:
  assumes "normalize text = Some hira"
  shows "\<exists>r. scan b hira (0, []) = Some (length hira, r) \<and> basic b text = Some (concat r)"
proof -
  from scan_total [of "(0, [])" hira b] obtain r where
    "scan b hira (0, []) = Some (length hira, r)" by auto
  with assms show ?thesis by (simp add: basic_def)
qed

lemma kana_to_romaji_eq:
  assumes "basic b text = Some out"
  shows "kana_to_romaji um b text = Some (if um then apply_macrons out else out)"
proof (cases "text = []")
  case True
  with assms have "out = []"
    by (simp add: basic_def scan_stop)
  moreover have "apply_macrons [] = []"
    by (simp add: apply_macrons_def repl_def str_replace.simps str_def)
  ultimately show ?thesis using True by (simp add: kana_to_romaji_def)
next
  case False
  with assms show ?thesis by (simp add: kana_to_romaji_def)
qed

section \<open>Evaluation on concrete strings\<close>

lemmas eval_simps = kana_to_romaji_def basic_def kata_to_hira_def py_chr_def scan.simps step_def
  choon_or_mono_def char_at_def next_romaji_chunk_def mono_get_def HIRA_MONO_def HIRA_MONO_items_def
  HIRA_DIGRAPHS_def HIRA_DIGRAPHS_items_def SOKUON_def MORAIC_N_def CHOON_def isalpha_def lower_def
  str_def apply_macrons_def repl_def str_replace.simps Let_def

section \<open>The flag\<close>

lemma step_flag:
  "hira ! i \<noteq> MORAIC_N \<Longrightarrow> step b hira (i, result) = step b' hira (i, result)"
  by (simp add: step_def char_at_def)

lemma scan_flag:
  "MORAIC_N \<notin> set hira \<Longrightarrow> scan b hira s = scan b' hira s"
proof (induction b hira s rule: scan.induct)
  case (1 b hira s)
  obtain i result where s: "s = (i, result)" by (cases s)
  show ?case
  proof (cases "i < length hira")
    case False
    with s show ?thesis by (simp add: scan_stop)
  next
    case True
    with "1.prems" have "hira ! i \<noteq> MORAIC_N" by (metis nth_mem)
    then have eq: "step b hira s = step b' hira s" unfolding s by (rule step_flag)
    from step_total [OF True, of b result] s obtain s' where st: "step b hira s = Some s'"
      by auto
    from True s have lt: "fst s < length hira" by simp
    from "1.IH" [OF lt st "1.prems"] have "scan b hira s' = scan b' hira s'" .
    with scan_iter [OF lt st] scan_iter [OF lt, of b' s'] eq st show ?thesis by simp
  qed
qed

lemma normalize_nasal_free:
  assumes "MORAIC_N \<notin> set text" "0x30F3 \<notin> set text" "normalize text = Some hira"
  shows "MORAIC_N \<notin> set hira"
proof
  assume "MORAIC_N \<in> set hira"
  with assms(3) obtain c where c: "c \<in> set text" "MORAIC_N = (if katakana c then c - 0x60 else c)"
    by (auto simp: normalize_eq)
  then have "c = MORAIC_N \<or> c = 0x30F3"
    by (auto simp: MORAIC_N_def katakana_def split: if_splits)
  with c(1) assms(1,2) show False by auto
qed

lemma special_visited:
  assumes "i < length hira" "hira ! i \<in> {SOKUON, MORAIC_N, CHOON}"
  shows "\<exists>r. reach b hira (i, r)"
proof (rule reach_visits [OF assms(1)])
  from assms(2) show "hira ! i \<notin> {0x3083, 0x3085, 0x3087}"
    by (auto simp: SOKUON_def MORAIC_N_def CHOON_def)
qed

section \<open>Replacement\<close>

lemma str_replace_Nil: "src \<noteq> [] \<Longrightarrow> str_replace src dst [] = []"
  by (subst str_replace.simps) simp

lemma str_replace_Cons_miss:
  "src \<noteq> [] \<Longrightarrow> take (length src) (x # xs) \<noteq> src \<Longrightarrow>
     str_replace src dst (x # xs) = x # str_replace src dst xs"
  by (subst str_replace.simps) simp

lemma str_replace_hit:
  "src \<noteq> [] \<Longrightarrow> s \<noteq> [] \<Longrightarrow> take (length src) s = src \<Longrightarrow>
     str_replace src dst s = dst @ str_replace src dst (drop (length src) s)"
  by (subst str_replace.simps) simp

text \<open>A two-character pattern whose first character occurs at most at the end of the
  string does not occur in it.\<close>

lemma str_replace_absent:
  "length src = 2 \<Longrightarrow> hd src \<notin> set (butlast s) \<Longrightarrow> str_replace src dst s = s"
proof (induction s)
  case Nil
  then have "src \<noteq> []" by auto
  then show ?case by (simp add: str_replace_Nil)
next
  case (Cons x xs)
  from Cons.prems(1) have ne: "src \<noteq> []" by auto
  show ?case
  proof (cases "xs = []")
    case True
    then have "length (take (length src) (x # xs)) \<le> 1" by simp
    with Cons.prems(1) have "take (length src) (x # xs) \<noteq> src" by auto
    with ne True show ?thesis by (simp add: str_replace_Cons_miss str_replace_Nil)
  next
    case False
    with Cons.prems(2) have x: "x \<noteq> hd src" and r: "hd src \<notin> set (butlast xs)" by auto
    from x ne have "take (length src) (x # xs) \<noteq> src"
      by (cases src) auto
    with ne Cons.IH [OF Cons.prems(1) r] show ?thesis by (simp add: str_replace_Cons_miss)
  qed
qed

text \<open>A character outside the pattern splits the string: the two sides are replaced
  separately.\<close>

lemma str_replace_split:
  assumes "src \<noteq> []" "c \<notin> set src"
  shows "str_replace src dst (pre @ c # post)
           = str_replace src dst pre @ c # str_replace src dst post"
proof (induction pre rule: length_induct)
  case (1 pre)
  show ?case
  proof (cases pre)
    case Nil
    from assms have "take (length src) (c # post) \<noteq> src"
      by (cases src) auto
    with assms Nil show ?thesis by (simp add: str_replace_Cons_miss str_replace_Nil)
  next
    case (Cons x xs)
    show ?thesis
    proof (cases "take (length src) pre = src")
      case True
      then have le: "length src \<le> length pre"
        by (metis length_take min.cobounded1)
      with True have t: "take (length src) (pre @ c # post) = src" by simp
      from le have d: "drop (length src) (pre @ c # post) = drop (length src) pre @ c # post"
        by simp
      from assms(1) Cons have "length (drop (length src) pre) < length pre" by (cases src) auto
      with 1 have ih: "str_replace src dst (drop (length src) pre @ c # post)
          = str_replace src dst (drop (length src) pre) @ c # str_replace src dst post" by blast
      from Cons have pne: "pre \<noteq> []" by simp
      have "str_replace src dst (pre @ c # post)
          = dst @ str_replace src dst (drop (length src) (pre @ c # post))"
        by (rule str_replace_hit [OF assms(1) _ t]) simp
      also have "\<dots> = (dst @ str_replace src dst (drop (length src) pre)) @ c # str_replace src dst post"
        by (simp only: d ih append_assoc)
      also have "dst @ str_replace src dst (drop (length src) pre) = str_replace src dst pre"
        by (rule str_replace_hit [OF assms(1) pne True, symmetric])
      finally show ?thesis .
    next
      case False
      have "take (length src) (pre @ c # post) \<noteq> src"
      proof (cases "length src \<le> length pre")
        case True
        with False show ?thesis by simp
      next
        case False
        then have "take (length src) (pre @ c # post) ! length pre = c"
          and "length pre < length (take (length src) (pre @ c # post))"
          by (simp_all add: nth_append take_Cons')
        then have "c \<in> set (take (length src) (pre @ c # post))"
          by (metis nth_mem)
        with assms(2) show ?thesis by metis
      qed
      then have m1: "take (length src) (x # (xs @ c # post)) \<noteq> src" using Cons by simp
      from False Cons have m2: "take (length src) (x # xs) \<noteq> src" by simp
      from 1 Cons have ih: "str_replace src dst (xs @ c # post)
          = str_replace src dst xs @ c # str_replace src dst post" by simp
      have "str_replace src dst (pre @ c # post) = x # str_replace src dst (xs @ c # post)"
        unfolding Cons append_Cons by (rule str_replace_Cons_miss [OF assms(1) m1])
      also have "\<dots> = (x # str_replace src dst xs) @ c # str_replace src dst post"
        by (simp only: ih append_Cons)
      also have "x # str_replace src dst xs = str_replace src dst pre"
        unfolding Cons by (rule str_replace_Cons_miss [OF assms(1) m2, symmetric])
      finally show ?thesis .
    qed
  qed
qed

text \<open>The macron pass leaves a string alone whose vowels, if any, are its last
  character.\<close>

lemma apply_macrons_absent:
  assumes "set (butlast s) \<inter> set (str ''aeiou'') = {}"
  shows "apply_macrons s = s"
proof -
  have r: "str_replace src dst s = s"
    if "src \<in> {str ''aa'', str ''ii'', str ''uu'', str ''ee'', str ''oo'', str ''ou''}"
    for src dst
  proof (rule str_replace_absent)
    from that show "length src = 2" by (auto simp: str_def)
    from that assms show "hd src \<notin> set (butlast s)" by (auto simp: str_def)
  qed
  show ?thesis
    by (simp add: apply_macrons_def repl_def r)
qed

section \<open>The backward scan for a vowel\<close>

lemma scan_back_find:
  "n \<le> length xs \<Longrightarrow>
     scan_back xs n = find (\<lambda>c. c \<in> set (str ''aeiou'')) (rev (take n xs))"
  by (induction n) (simp_all add: take_Suc_conv_app_nth)

lemma find_app:
  "find P (xs @ ys) = (case find P xs of None \<Rightarrow> find P ys | Some x \<Rightarrow> Some x)"
  by (induction xs) simp_all

lemma digraph_first_mono:
  assumes "HIRA_DIGRAPHS [a, c] = Some v"
  shows "HIRA_MONO a \<noteq> None"
proof -
  from digraph_shape [OF assms]
  have "a \<in> {0x304D, 0x304E, 0x3057, 0x3058, 0x3061, 0x306B, 0x3072, 0x3073, 0x3074, 0x307F, 0x308A}"
    by simp
  then show ?thesis
    by (auto simp: HIRA_MONO_def HIRA_MONO_items_def)
qed

lemma scan_back_all:
  "scan_back xs (length xs) = find (\<lambda>c. c \<in> set (str ''aeiou'')) (rev xs)"
  using scan_back_find [of "length xs" xs] by simp

lemma scan_back_last_vowel:
  assumes "v \<in> set (str ''aeiou'')" "set post \<inter> set (str ''aeiou'') = {}"
  shows "scan_back (pre @ [v] @ post) (length (pre @ [v] @ post)) = Some v"
proof -
  from assms(2) have "find (\<lambda>c. c \<in> set (str ''aeiou'')) (rev post) = None"
    by (auto simp: find_None_iff)
  moreover have "rev (pre @ [v] @ post) = rev post @ (v # rev pre)" by simp
  ultimately show ?thesis using assms(1)
    by (simp only: scan_back_all find_app option.case find.simps if_True)
qed

lemma scan_back_no_vowel:
  assumes "set xs \<inter> set (str ''aeiou'') = {}"
  shows "scan_back xs (length xs) = None"
  using assms by (auto simp: scan_back_all find_None_iff)

lemma step_choon:
  assumes "i < length hira" "hira ! i = CHOON"
  shows "step b hira (i, result) = choon_or_mono CHOON (i, result)"
proof -
  have "i + 1 < length hira \<longrightarrow> HIRA_DIGRAPHS [hira ! i, hira ! (i + 1)] = None"
  proof (intro impI)
    show "HIRA_DIGRAPHS [hira ! i, hira ! (i + 1)] = None"
    proof (cases "HIRA_DIGRAPHS [hira ! i, hira ! (i + 1)]")
      case (Some rom)
      from digraph_first(3) [OF Some] assms(2) show ?thesis by simp
    qed simp
  qed
  with step_other [of i hira b result] assms show ?thesis
    by (simp add: CHOON_def SOKUON_def MORAIC_N_def)
qed

section \<open>Digraphs\<close>

lemma mono_get_digraph_parts:
  "mono_get 0x304D = str ''ki''" "mono_get 0x304E = str ''gi''" "mono_get 0x3057 = str ''shi''"
  "mono_get 0x3058 = str ''ji''" "mono_get 0x3061 = str ''chi''" "mono_get 0x306B = str ''ni''"
  "mono_get 0x3072 = str ''hi''" "mono_get 0x3073 = str ''bi''" "mono_get 0x3074 = str ''pi''"
  "mono_get 0x307F = str ''mi''" "mono_get 0x308A = str ''ri''"
  "mono_get 0x3083 = str ''ya''" "mono_get 0x3085 = str ''yu''" "mono_get 0x3087 = str ''yo''"
  by (simp_all add: mono_get_def HIRA_MONO_def HIRA_MONO_items_def)

lemma digraph_items_not_concat:
  "list_all (\<lambda>(k, v). v \<noteq> mono_get (k ! 0) @ mono_get (k ! 1)) HIRA_DIGRAPHS_items"
  by (simp add: HIRA_DIGRAPHS_items_def mono_get_digraph_parts str_def)

lemma digraph_items_vowel_last:
  "list_all (\<lambda>(k, v). set (butlast v) \<inter> set (str ''aeiou'') = {}) HIRA_DIGRAPHS_items"
  by (simp add: HIRA_DIGRAPHS_items_def str_def)

lemma digraph_value:
  assumes "HIRA_DIGRAPHS k = Some v"
  shows "v \<noteq> mono_get (k ! 0) @ mono_get (k ! 1)" "apply_macrons v = v"
proof -
  from assms have "(k, v) \<in> set HIRA_DIGRAPHS_items"
    by (simp add: HIRA_DIGRAPHS_def map_of_SomeD)
  with digraph_items_not_concat digraph_items_vowel_last
  have "v \<noteq> mono_get (k ! 0) @ mono_get (k ! 1)"
    and "set (butlast v) \<inter> set (str ''aeiou'') = {}"
    by (auto simp: list_all_iff)
  then show "v \<noteq> mono_get (k ! 0) @ mono_get (k ! 1)" "apply_macrons v = v"
    by (simp_all add: apply_macrons_absent)
qed

lemma digraph_alone:
  assumes "HIRA_DIGRAPHS pair = Some rom"
  shows "kana_to_romaji um b pair = Some rom"
proof -
  from digraph_shape [OF assms] have len: "length pair = 2" by simp
  then obtain a c where pair: "pair = [a, c]"
    by (cases pair; cases "tl pair") auto
  from digraph_shape [OF assms] pair have "\<not> katakana a" "\<not> katakana c"
    by (auto simp: katakana_def)
  then have n: "normalize pair = Some pair"
    by (simp add: normalize_eq pair)
  from assms pair have d: "HIRA_DIGRAPHS [pair ! 0, pair ! (0 + 1)] = Some rom" by simp
  from len have l: "0 + 1 < length pair" by simp
  have "step b pair (0, []) = Some (0 + 2, [] @ [rom])"
    by (rule step_digraph [OF l d])
  with len have "scan b pair (0, []) = Some (2, [rom])"
    by (simp add: scan_iter scan_stop)
  with n have "basic b pair = Some rom" by (simp add: basic_def)
  from kana_to_romaji_eq [OF this, of um] digraph_value(2) [OF assms] show ?thesis by simp
qed

section \<open>Characters that pass through\<close>

lemma apply_macrons_split:
  assumes "c \<notin> set (str ''aeiou'')"
  shows "apply_macrons (pre @ c # post) = apply_macrons pre @ c # apply_macrons post"
proof -
  have r: "str_replace src dst (xs @ c # ys) = str_replace src dst xs @ c # str_replace src dst ys"
    if "src \<in> {str ''aa'', str ''ii'', str ''uu'', str ''ee'', str ''oo'', str ''ou''}"
    for src dst xs ys
  proof (rule str_replace_split)
    from that show "src \<noteq> []" by (auto simp: str_def)
    from that assms show "c \<notin> set src" by (auto simp: str_def)
  qed
  show ?thesis
    by (simp add: apply_macrons_def repl_def r)
qed

lemma step_pass_through:
  assumes "j < length hira" "HIRA_MONO (hira ! j) = None"
  shows "step b hira (j, r) = Some (j + 1, r @ [[hira ! j]])"
proof -
  from assms(2) special_mono have sp: "hira ! j \<noteq> SOKUON" "hira ! j \<noteq> MORAIC_N" "hira ! j \<noteq> CHOON"
    by auto
  have nd: "j + 1 < length hira \<longrightarrow> HIRA_DIGRAPHS [hira ! j, hira ! (j + 1)] = None"
  proof (intro impI)
    show "HIRA_DIGRAPHS [hira ! j, hira ! (j + 1)] = None"
    proof (cases "HIRA_DIGRAPHS [hira ! j, hira ! (j + 1)]")
      case (Some rom)
      from digraph_first_mono [OF Some] assms(2) show ?thesis by simp
    qed simp
  qed
  from step_other [OF assms(1) sp(1,2) nd] sp(3) assms(2) show ?thesis
    by (simp add: choon_or_mono_def)
qed

section \<open>The claims\<close>

text \<open>
  Claim C7. Normalisation returns a string of the same length in which every character
  of the range U+30A1 .. U+30F6 (the katakana letters the code shifts) is moved down by
  the fixed offset 0x60 and every other character is kept. Applied to its own output,
  and to any string without a character of that range, it returns the string unchanged.
\<close>

theorem normalize_spec:
  "normalize text = Some (map (\<lambda>c. if katakana c then c - 0x60 else c) text)
   \<and> (\<forall>hira. normalize text = Some hira \<longrightarrow>
          length hira = length text \<and> normalize hira = Some hira)
   \<and> ((\<forall>c \<in> set text. \<not> katakana c) \<longrightarrow> normalize text = Some text)"
proof (intro conjI allI impI)
  show "normalize text = Some (map (\<lambda>c. if katakana c then c - 0x60 else c) text)"
    by (rule normalize_eq)
next
  fix hira assume "normalize text = Some hira"
  then have h: "hira = map (\<lambda>c. if katakana c then c - 0x60 else c) text"
    by (simp add: normalize_eq)
  then show "length hira = length text" by simp
  have "map (\<lambda>c. if katakana c then c - 0x60 else c) hira = hira"
    unfolding h using shifted_not_katakana by (simp add: map_idI)
  then show "normalize hira = Some hira" by (simp add: normalize_eq)
next
  assume "\<forall>c \<in> set text. \<not> katakana c"
  then have "map (\<lambda>c. if katakana c then c - 0x60 else c) text = text"
    by (simp add: map_idI)
  then show "normalize text = Some text" by (simp add: normalize_eq)
qed

theorem normalize_spec_witness:
  "normalize [0x30AB, 0x304B, 0x61, 0x30FC] = Some [0x304B, 0x304B, 0x61, 0x30FC]
   \<and> length [0x304B, 0x304B, 0x61, 0x30FC :: nat] = length [0x30AB, 0x304B, 0x61, 0x30FC :: nat]
   \<and> normalize [0x304B, 0x304B, 0x61, 0x30FC] = Some [0x304B, 0x304B, 0x61, 0x30FC]
   \<and> \<not> katakana 0x304B \<and> \<not> katakana 0x3093
   \<and> normalize [0x304B, 0x3093] = Some [0x304B, 0x3093]"
proof -
  note kata = normalize_spec [of "[0x30AB, 0x304B, 0x61, 0x30FC]"]
  from kata have n: "normalize [0x30AB, 0x304B, 0x61, 0x30FC] = Some [0x304B, 0x304B, 0x61, 0x30FC]"
    by (simp add: katakana_def)
  with kata have "length [0x304B, 0x304B, 0x61, 0x30FC :: nat] = length [0x30AB, 0x304B, 0x61, 0x30FC :: nat]
     \<and> normalize [0x304B, 0x304B, 0x61, 0x30FC] = Some [0x304B, 0x304B, 0x61, 0x30FC]"
    by blast
  moreover have k: "\<not> katakana 0x304B" "\<not> katakana 0x3093"
    by (simp_all add: katakana_def)
  moreover from k have "\<forall>c \<in> set [0x304B, 0x3093 :: nat]. \<not> katakana c" by simp
  with normalize_spec [of "[0x304B, 0x3093]"]
  have "normalize [0x304B, 0x3093] = Some [0x304B, 0x3093]" by blast
  ultimately show ?thesis using n by blast
qed

text \<open>
  Claim C8. For every input string and every combination of the two flags
  \<open>kana_to_romaji\<close> returns a string: no index, key or code-point error is raised and
  the loop ends. The empty string gives the empty string, and a small ya alone, with
  no base before it, gives "ya".
\<close>

theorem kana_to_romaji_total:
  "(\<exists>out. kana_to_romaji use_macrons use_m_before_bmp text = Some out)
   \<and> kana_to_romaji use_macrons use_m_before_bmp [] = Some []
   \<and> kana_to_romaji use_macrons use_m_before_bmp [0x3083] = Some (str ''ya'')"
proof (intro conjI)
  obtain hira where "normalize text = Some hira" by (simp add: normalize_eq)
  from basic_total [OF this] obtain out where "basic use_m_before_bmp text = Some out"
    by blast
  from kana_to_romaji_eq [OF this] show "\<exists>out. kana_to_romaji use_macrons use_m_before_bmp text = Some out"
    by blast
  show "kana_to_romaji use_macrons use_m_before_bmp [] = Some []"
    by (simp add: kana_to_romaji_def)
  show "kana_to_romaji use_macrons use_m_before_bmp [0x3083] = Some (str ''ya'')"
    by (cases use_macrons) (simp_all add: eval_simps)
qed

text \<open>
  Claim C9. Every iteration entered with the cursor inside the string succeeds and moves
  the cursor by exactly 1 or by exactly 2, by 2 exactly in the digraph branch, and never
  past the end; so every state the loop passes through has its cursor within the string,
  and the loop ends with the cursor equal to the length of the normalised string.
\<close>

theorem cursor_advances:
  "(\<forall>i result. i < length hira \<longrightarrow>
      (\<exists>i' result'. step b hira (i, result) = Some (i', result')
         \<and> (i' = i + 1 \<or> i' = i + 2) \<and> i' \<le> length hira
         \<and> (i' = i + 2 \<longleftrightarrow> i + 1 < length hira \<and> HIRA_DIGRAPHS [hira ! i, hira ! (i + 1)] \<noteq> None)))
   \<and> (\<forall>s. reach b hira s \<longrightarrow> fst s \<le> length hira)
   \<and> (\<exists>result. scan b hira (0, []) = Some (length hira, result))"
proof (intro conjI allI impI)
  fix i result assume lt: "i < length hira"
  from step_total [OF lt, of b result] lt
  show "\<exists>i' result'. step b hira (i, result) = Some (i', result')
         \<and> (i' = i + 1 \<or> i' = i + 2) \<and> i' \<le> length hira
         \<and> (i' = i + 2 \<longleftrightarrow> i + 1 < length hira \<and> HIRA_DIGRAPHS [hira ! i, hira ! (i + 1)] \<noteq> None)"
    by (cases "i + 1 < length hira \<and> HIRA_DIGRAPHS [hira ! i, hira ! (i + 1)] \<noteq> None") auto
next
  fix s assume "reach b hira s"
  then show "fst s \<le> length hira" by (rule reach_bound)
next
  from scan_total [of "(0, [])" hira b]
  show "\<exists>result. scan b hira (0, []) = Some (length hira, result)" by auto
qed

theorem cursor_advances_witness:
  "0 < length [0x304D, 0x3083, 0x3093 :: nat]
   \<and> (\<exists>i' result'. step True [0x304D, 0x3083, 0x3093] (0, []) = Some (i', result')
         \<and> (i' = 0 + 1 \<or> i' = 0 + 2) \<and> i' \<le> length [0x304D, 0x3083, 0x3093 :: nat])
   \<and> reach True [0x304D, 0x3083, 0x3093] (0, [])
   \<and> fst (0 :: nat, [] :: ustr list) \<le> length [0x304D, 0x3083, 0x3093 :: nat]"
proof -
  let ?h = "[0x304D, 0x3083, 0x3093] :: ustr"
  have lt: "0 < length ?h" by simp
  have r: "reach True ?h (0, [])" by (rule reach.start)
  from cursor_advances [of ?h True] lt
  have "\<exists>i' result'. step True ?h (0, []) = Some (i', result')
         \<and> (i' = 0 + 1 \<or> i' = 0 + 2) \<and> i' \<le> length ?h" by blast
  moreover from cursor_advances [of ?h True] r
  have "fst (0 :: nat, [] :: ustr list) \<le> length ?h" by blast
  ultimately show ?thesis using lt r by blast
qed

text \<open>
  Claim C10. The flag \<open>use_m_before_bmp\<close> is read only in the moraic-nasal branch: an
  iteration at any other character is the same for both values of the flag, and for a
  text with neither the hiragana moraic n (U+3093) nor the katakana one (U+30F3) the
  result of \<open>kana_to_romaji\<close> is the same for both values, for each value of
  \<open>use_macrons\<close>.
\<close>

theorem flag_only_nasal:
  "(hira ! i \<noteq> MORAIC_N \<longrightarrow> step True hira (i, result) = step False hira (i, result))
   \<and> (MORAIC_N \<notin> set text \<and> 0x30F3 \<notin> set text \<longrightarrow>
        kana_to_romaji use_macrons True text = kana_to_romaji use_macrons False text)"
proof (intro conjI impI)
  assume "hira ! i \<noteq> MORAIC_N"
  then show "step True hira (i, result) = step False hira (i, result)" by (rule step_flag)
next
  assume a: "MORAIC_N \<notin> set text \<and> 0x30F3 \<notin> set text"
  obtain h where h: "normalize text = Some h" by (simp add: normalize_eq)
  from a have "MORAIC_N \<notin> set h" using normalize_nasal_free [OF _ _ h] by blast
  then have "scan True h (0, []) = scan False h (0, [])" by (rule scan_flag)
  with h have "basic True text = basic False text" by (simp add: basic_def)
  then show "kana_to_romaji use_macrons True text = kana_to_romaji use_macrons False text"
    by (simp add: kana_to_romaji_def)
qed

theorem flag_only_nasal_witness:
  "[0x304C, 0x3063, 0x3053, 0x3046] ! 1 \<noteq> MORAIC_N
   \<and> step True [0x304C, 0x3063, 0x3053, 0x3046] (1, [str ''ga''])
       = step False [0x304C, 0x3063, 0x3053, 0x3046] (1, [str ''ga''])
   \<and> MORAIC_N \<notin> set [0x304C, 0x3063, 0x3053, 0x3046]
   \<and> 0x30F3 \<notin> set [0x304C, 0x3063, 0x3053, 0x3046 :: nat]
   \<and> kana_to_romaji True True [0x304C, 0x3063, 0x3053, 0x3046]
       = kana_to_romaji True False [0x304C, 0x3063, 0x3053, 0x3046]"
proof -
  let ?t = "[0x304C, 0x3063, 0x3053, 0x3046] :: ustr"
  have a: "?t ! 1 \<noteq> MORAIC_N" by (simp add: MORAIC_N_def)
  have b: "MORAIC_N \<notin> set ?t" "0x30F3 \<notin> set ?t" by (simp_all add: MORAIC_N_def)
  from flag_only_nasal [of ?t 1 "[str ''ga'']" ?t True] a b show ?thesis by blast
qed

text \<open>
  Claim C1. At every position of the normalised string that holds the moraic n the
  cursor arrives, and the iteration there appends one chunk and moves the cursor by 1.
  The chunk is "n" when the moraic n is the last character or the lookahead chunk at the
  next position is empty; otherwise it is "n'" when the first character of the lookahead
  chunk, lower-cased, is one of a, e, i, o, u, y; "m" or "n" according to
  \<open>use_m_before_bmp\<close> when it is one of b, m, p; and "n" in every other case.
  With macrons off, shi-n-yo-u gives "shin'you", and shi-n-bu-n gives "shimbun" with the
  flag set and "shinbun" without it.
\<close>

theorem moraic_nasal:
  "(i < length hira \<and> hira ! i = MORAIC_N \<longrightarrow>
      (\<exists>r. reach b hira (i, r))
      \<and> (\<exists>chunk. next_romaji_chunk hira (i + 1) = Some chunk
           \<and> step b hira (i, result) = Some (i + 1, result @ [
               if i + 1 = length hira then str ''n''
               else if chunk = [] then str ''n''
               else if lower (hd chunk) \<in> set (str ''aeiouy'') then str (''n'' @ [CHR 0x27])
               else if lower (hd chunk) \<in> set (str ''bmp'')
                 then (if b then str ''m'' else str ''n'')
               else str ''n''])))
   \<and> kana_to_romaji False True [0x3057, 0x3093, 0x3088, 0x3046]
        = Some (str (''shin'' @ [CHR 0x27] @ ''you''))
   \<and> kana_to_romaji False True [0x3057, 0x3093, 0x3076, 0x3093] = Some (str ''shimbun'')
   \<and> kana_to_romaji False False [0x3057, 0x3093, 0x3076, 0x3093] = Some (str ''shinbun'')"
proof (intro conjI impI)
  assume a: "i < length hira \<and> hira ! i = MORAIC_N"
  then show "\<exists>r. reach b hira (i, r)" by (simp add: special_visited)
  obtain chunk where chunk: "next_romaji_chunk hira (i + 1) = Some chunk"
    by (simp add: next_romaji_chunk_eq)
  have low: "chunk \<noteq> [] \<Longrightarrow> lower (hd chunk) = hd chunk"
    using chunk_head(3) [OF chunk] .
  from a have "step b hira (i, result) = Some (i + 1, result @ [
               if i + 1 = length hira then str ''n''
               else if chunk = [] then str ''n''
               else if lower (hd chunk) \<in> set (str ''aeiouy'') then str (''n'' @ [CHR 0x27])
               else if lower (hd chunk) \<in> set (str ''bmp'')
                 then (if b then str ''m'' else str ''n'')
               else str ''n''])"
    using low by (simp add: step_nasal [OF _ _ chunk])
  with chunk show "\<exists>chunk. next_romaji_chunk hira (i + 1) = Some chunk
           \<and> step b hira (i, result) = Some (i + 1, result @ [
               if i + 1 = length hira then str ''n''
               else if chunk = [] then str ''n''
               else if lower (hd chunk) \<in> set (str ''aeiouy'') then str (''n'' @ [CHR 0x27])
               else if lower (hd chunk) \<in> set (str ''bmp'')
                 then (if b then str ''m'' else str ''n'')
               else str ''n''])" by blast
next
  show "kana_to_romaji False True [0x3057, 0x3093, 0x3088, 0x3046]
        = Some (str (''shin'' @ [CHR 0x27] @ ''you''))"
    by (simp add: eval_simps)
next
  show "kana_to_romaji False True [0x3057, 0x3093, 0x3076, 0x3093] = Some (str ''shimbun'')"
    by (simp add: eval_simps)
next
  show "kana_to_romaji False False [0x3057, 0x3093, 0x3076, 0x3093] = Some (str ''shinbun'')"
    by (simp add: eval_simps)
qed

theorem moraic_nasal_witness:
  "1 < length [0x3057, 0x3093, 0x3076, 0x3093 :: nat]
   \<and> [0x3057, 0x3093, 0x3076, 0x3093] ! 1 = MORAIC_N
   \<and> next_romaji_chunk [0x3057, 0x3093, 0x3076, 0x3093] (1 + 1) = Some (str ''bu'')
   \<and> step True [0x3057, 0x3093, 0x3076, 0x3093] (1, [str ''shi''])
        = Some (2, [str ''shi'', str ''m''])"
proof -
  let ?h = "[0x3057, 0x3093, 0x3076, 0x3093] :: ustr"
  have a: "1 < length ?h" "?h ! 1 = MORAIC_N" by (simp_all add: MORAIC_N_def)
  have c: "next_romaji_chunk ?h (1 + 1) = Some (str ''bu'')"
    by (simp add: next_romaji_chunk_def char_at_def mono_get_def HIRA_MONO_def HIRA_MONO_items_def
          HIRA_DIGRAPHS_def HIRA_DIGRAPHS_items_def str_def)
  from moraic_nasal [of 1 ?h True "[str ''shi'']"] a obtain chunk where
    ch: "next_romaji_chunk ?h (1 + 1) = Some chunk" and
    st: "step True ?h (1, [str ''shi'']) = Some (1 + 1, [str ''shi''] @ [
               if 1 + 1 = length ?h then str ''n''
               else if chunk = [] then str ''n''
               else if lower (hd chunk) \<in> set (str ''aeiouy'') then str (''n'' @ [CHR 0x27])
               else if lower (hd chunk) \<in> set (str ''bmp'')
                 then (if True then str ''m'' else str ''n'')
               else str ''n''])"
    by blast
  from ch c have "chunk = str ''bu''" by simp
  with st have "step True ?h (1, [str ''shi'']) = Some (2, [str ''shi'', str ''m''])"
    by (simp add: str_def lower_def)
  with a c show ?thesis by blast
qed

text \<open>
  Claim C4. At every position of the normalised string that holds the small tsu the
  cursor arrives, and the iteration there moves the cursor by 1. When the lookahead chunk
  at the next position is not empty, exactly its first character is appended; when it is
  empty, as it is at the end of the string and before a character without an entry in
  the monograph table, nothing is appended. ga-(small tsu)-ko-u gives "gakkou" with
  macrons off and "gakko" with a macron on the o with macrons on.
\<close>

theorem gemination:
  "(i < length hira \<and> hira ! i = SOKUON \<longrightarrow>
      (\<exists>r. reach b hira (i, r))
      \<and> (\<exists>chunk. next_romaji_chunk hira (i + 1) = Some chunk
           \<and> step b hira (i, result)
               = Some (i + 1, if chunk \<noteq> [] then result @ [[hd chunk]] else result)
           \<and> (i + 1 = length hira \<longrightarrow> chunk = [])
           \<and> (i + 1 < length hira \<and> HIRA_MONO (hira ! (i + 1)) = None \<longrightarrow> chunk = [])))
   \<and> kana_to_romaji False use_m_before_bmp [0x304C, 0x3063, 0x3053, 0x3046]
        = Some (str ''gakkou'')
   \<and> kana_to_romaji True use_m_before_bmp [0x304C, 0x3063, 0x3053, 0x3046]
        = Some (str ''gakk'' @ [0x014D])"
proof (intro conjI impI)
  assume a: "i < length hira \<and> hira ! i = SOKUON"
  then show "\<exists>r. reach b hira (i, r)" by (simp add: special_visited)
  obtain chunk where chunk: "next_romaji_chunk hira (i + 1) = Some chunk"
    by (simp add: next_romaji_chunk_eq)
  from a have st: "step b hira (i, result)
      = Some (i + 1, if chunk \<noteq> [] then result @ [[hd chunk]] else result)"
    by (simp add: step_sokuon [OF _ _ chunk])
  from chunk have e1: "i + 1 = length hira \<longrightarrow> chunk = []"
    by (auto simp: next_romaji_chunk_eq)
  have e2: "i + 1 < length hira \<and> HIRA_MONO (hira ! (i + 1)) = None \<longrightarrow> chunk = []"
  proof
    assume u: "i + 1 < length hira \<and> HIRA_MONO (hira ! (i + 1)) = None"
    have "i + 1 + 1 < length hira \<longrightarrow> HIRA_DIGRAPHS [hira ! (i + 1), hira ! (i + 1 + 1)] = None"
    proof (intro impI)
      show "HIRA_DIGRAPHS [hira ! (i + 1), hira ! (i + 1 + 1)] = None"
      proof (cases "HIRA_DIGRAPHS [hira ! (i + 1), hira ! (i + 1 + 1)]")
        case (Some rom)
        from digraph_first_mono [OF Some] u show ?thesis by simp
      qed simp
    qed
    with chunk u show "chunk = []"
      by (auto simp: next_romaji_chunk_eq mono_get_def split: if_splits)
  qed
  from chunk st e1 e2
  show "\<exists>chunk. next_romaji_chunk hira (i + 1) = Some chunk
           \<and> step b hira (i, result)
               = Some (i + 1, if chunk \<noteq> [] then result @ [[hd chunk]] else result)
           \<and> (i + 1 = length hira \<longrightarrow> chunk = [])
           \<and> (i + 1 < length hira \<and> HIRA_MONO (hira ! (i + 1)) = None \<longrightarrow> chunk = [])"
    by blast
next
  show "kana_to_romaji False use_m_before_bmp [0x304C, 0x3063, 0x3053, 0x3046]
        = Some (str ''gakkou'')"
    by (simp add: eval_simps)
next
  show "kana_to_romaji True use_m_before_bmp [0x304C, 0x3063, 0x3053, 0x3046]
        = Some (str ''gakk'' @ [0x014D])"
    by (simp add: eval_simps)
qed

theorem gemination_witness:
  "1 < length [0x304C, 0x3063, 0x3053, 0x3046 :: nat]
   \<and> [0x304C, 0x3063, 0x3053, 0x3046] ! 1 = SOKUON
   \<and> next_romaji_chunk [0x304C, 0x3063, 0x3053, 0x3046] (1 + 1) = Some (str ''ko'')
   \<and> step True [0x304C, 0x3063, 0x3053, 0x3046] (1, [str ''ga''])
        = Some (2, [str ''ga'', str ''k''])"
proof -
  let ?h = "[0x304C, 0x3063, 0x3053, 0x3046] :: ustr"
  have a: "1 < length ?h" "?h ! 1 = SOKUON" by (simp_all add: SOKUON_def)
  have c: "next_romaji_chunk ?h (1 + 1) = Some (str ''ko'')"
    by (simp add: next_romaji_chunk_def char_at_def mono_get_def HIRA_MONO_def HIRA_MONO_items_def
          HIRA_DIGRAPHS_def HIRA_DIGRAPHS_items_def str_def)
  from gemination [of 1 ?h True "[str ''ga'']"] a obtain chunk where
    ch: "next_romaji_chunk ?h (1 + 1) = Some chunk" and
    st: "step True ?h (1, [str ''ga''])
          = Some (1 + 1, if chunk \<noteq> [] then [str ''ga''] @ [[hd chunk]] else [str ''ga''])"
    by blast
  from ch c have "chunk = str ''ko''" by simp
  with st have "step True ?h (1, [str ''ga'']) = Some (2, [str ''ga'', str ''k''])"
    by (simp add: str_def)
  with a c show ?thesis by blast
qed

text \<open>
  Claim C6. When the cursor points at the first character of a pair that is a key of the
  digraph table, the iteration appends the value of the pair, which differs from the
  concatenation of the monograph values of its two characters, and moves the cursor
  by 2. The transliteration of such a pair alone is the value of the pair, for every
  combination of the flags.
\<close>

theorem digraph_priority:
  "(i + 1 < length hira \<and> HIRA_DIGRAPHS [hira ! i, hira ! (i + 1)] = Some rom \<longrightarrow>
      step b hira (i, result) = Some (i + 2, result @ [rom])
      \<and> rom \<noteq> mono_get (hira ! i) @ mono_get (hira ! (i + 1)))
   \<and> (HIRA_DIGRAPHS pair = Some rom' \<longrightarrow>
        kana_to_romaji use_macrons use_m_before_bmp pair = Some rom')"
proof (intro conjI impI)
  assume a: "i + 1 < length hira \<and> HIRA_DIGRAPHS [hira ! i, hira ! (i + 1)] = Some rom"
  then show "step b hira (i, result) = Some (i + 2, result @ [rom])"
    by (simp add: step_digraph)
  from a digraph_value(1) [of "[hira ! i, hira ! (i + 1)]" rom]
  show "rom \<noteq> mono_get (hira ! i) @ mono_get (hira ! (i + 1))" by simp
next
  assume "HIRA_DIGRAPHS pair = Some rom'"
  then show "kana_to_romaji use_macrons use_m_before_bmp pair = Some rom'"
    by (rule digraph_alone)
qed

theorem digraph_priority_witness:
  "0 + 1 < length [0x304D, 0x3087, 0x3046 :: nat]
   \<and> HIRA_DIGRAPHS [[0x304D, 0x3087, 0x3046] ! 0, [0x304D, 0x3087, 0x3046] ! (0 + 1)] = Some (str ''kyo'')
   \<and> step True [0x304D, 0x3087, 0x3046] (0, []) = Some (0 + 2, [] @ [str ''kyo''])
   \<and> str ''kyo'' \<noteq> mono_get ([0x304D, 0x3087, 0x3046] ! 0) @ mono_get ([0x304D, 0x3087, 0x3046] ! (0 + 1))
   \<and> HIRA_DIGRAPHS [0x3057, 0x3083] = Some (str ''sha'')
   \<and> kana_to_romaji True True [0x3057, 0x3083] = Some (str ''sha'')"
proof -
  let ?h = "[0x304D, 0x3087, 0x3046] :: ustr"
  have a: "0 + 1 < length ?h" by simp
  have d: "HIRA_DIGRAPHS [?h ! 0, ?h ! (0 + 1)] = Some (str ''kyo'')"
    by (simp add: HIRA_DIGRAPHS_def HIRA_DIGRAPHS_items_def)
  have e: "HIRA_DIGRAPHS [0x3057, 0x3083] = Some (str ''sha'')"
    by (simp add: HIRA_DIGRAPHS_def HIRA_DIGRAPHS_items_def)
  from digraph_priority [of 0 ?h "str ''kyo''" True "[]" "[0x3057, 0x3083]" "str ''sha''" True True] a d e
  show ?thesis by blast
qed

text \<open>
  Claim C5, amended. At every position of the normalised string that holds the prolonged
  sound mark the cursor arrives, and the iteration there moves the cursor by 1. With an
  empty buffer nothing is appended. With a non-empty buffer whose last chunk contains a
  vowel letter (a, e, i, o, u), the last vowel letter of that chunk is appended as a
  chunk of its own. With a non-empty buffer whose last chunk contains no vowel letter
  nothing is appended: the claim as written leaves this case out, and it occurs after
  the moraic n, whose chunk is "n" (the counterexample below).
\<close>

theorem long_vowel_mark:
  "i < length hira \<and> hira ! i = CHOON \<longrightarrow>
     (\<exists>r. reach b hira (i, r))
     \<and> (result = [] \<longrightarrow> step b hira (i, result) = Some (i + 1, result))
     \<and> (result \<noteq> [] \<and> last result = pre @ [v] @ post \<and> v \<in> set (str ''aeiou'')
          \<and> set post \<inter> set (str ''aeiou'') = {} \<longrightarrow>
          step b hira (i, result) = Some (i + 1, result @ [[v]]))
     \<and> (result \<noteq> [] \<and> set (last result) \<inter> set (str ''aeiou'') = {} \<longrightarrow>
          step b hira (i, result) = Some (i + 1, result))"
proof (intro conjI impI)
  assume a: "i < length hira \<and> hira ! i = CHOON"
  then show "\<exists>r. reach b hira (i, r)" by (simp add: special_visited)
  from a have st: "step b hira (i, result) = choon_or_mono CHOON (i, result)"
    by (simp add: step_choon)
  {
    assume "result = []"
    with st show "step b hira (i, result) = Some (i + 1, result)"
      by (simp add: choon_or_mono_def)
  next
    assume c: "result \<noteq> [] \<and> last result = pre @ [v] @ post \<and> v \<in> set (str ''aeiou'')
          \<and> set post \<inter> set (str ''aeiou'') = {}"
    then have "scan_back (last result) (length (last result)) = Some v"
      using scan_back_last_vowel [of v post pre] by simp
    with st c show "step b hira (i, result) = Some (i + 1, result @ [[v]])"
      by (simp add: choon_or_mono_def)
  next
    assume c: "result \<noteq> [] \<and> set (last result) \<inter> set (str ''aeiou'') = {}"
    then have "scan_back (last result) (length (last result)) = None"
      by (simp add: scan_back_no_vowel)
    with st c show "step b hira (i, result) = Some (i + 1, result)"
      by (simp add: choon_or_mono_def)
  }
qed

theorem long_vowel_mark_witness:
  "1 < length [0x304B, 0x30FC :: nat] \<and> [0x304B, 0x30FC] ! 1 = CHOON
   \<and> [str ''ka''] \<noteq> [] \<and> last [str ''ka''] = str ''k'' @ [0x61] @ []
   \<and> 0x61 \<in> set (str ''aeiou'') \<and> set [] \<inter> set (str ''aeiou'') = {}
   \<and> step True [0x304B, 0x30FC] (1, [str ''ka'']) = Some (1 + 1, [str ''ka''] @ [[0x61]])
   \<and> step True [0x304B, 0x30FC] (1, []) = Some (1 + 1, [])"
proof -
  let ?h = "[0x304B, 0x30FC] :: ustr"
  have a: "1 < length ?h" "?h ! 1 = CHOON" by (simp_all add: CHOON_def)
  have c: "[str ''ka''] \<noteq> []" "last [str ''ka''] = str ''k'' @ [0x61] @ []"
    "0x61 \<in> set (str ''aeiou'')" "set [] \<inter> set (str ''aeiou'') = {}"
    by (simp_all add: str_def)
  from long_vowel_mark [of 1 ?h True "[str ''ka'']" "str ''k''" "0x61" "[]"] a c
  have "step True ?h (1, [str ''ka'']) = Some (1 + 1, [str ''ka''] @ [[0x61]])" by blast
  moreover from long_vowel_mark [of 1 ?h True "[]"] a
  have "step True ?h (1, []) = Some (1 + 1, [])" by blast
  ultimately show ?thesis using a c by blast
qed

theorem long_vowel_mark_counterexample:
  "reach True [0x3093, 0x30FC] (1, [str ''n''])
   \<and> [0x3093, 0x30FC] ! 1 = CHOON
   \<and> [str ''n''] \<noteq> []
   \<and> step True [0x3093, 0x30FC] (1, [str ''n'']) = Some (2, [str ''n''])
   \<and> kana_to_romaji False True [0x3093, 0x30FC] = Some (str ''n'')"
proof -
  let ?h = "[0x3093, 0x30FC] :: ustr"
  have s0: "step True ?h (0, []) = Some (1, [str ''n''])"
    by (simp add: eval_simps)
  have "fst (0 :: nat, [] :: ustr list) < length ?h" by simp
  from reach.iter [OF reach.start this s0] have r: "reach True ?h (1, [str ''n''])" .
  have "step True ?h (1, [str ''n'']) = Some (2, [str ''n''])"
    by (simp add: eval_simps)
  moreover have "kana_to_romaji False True ?h = Some (str ''n'')"
    by (simp add: eval_simps)
  ultimately show ?thesis using r by (simp add: CHOON_def)
qed



text \<open>
  Claim C2. With \<open>use_macrons\<close> false the result is the basic romanisation. With
  \<open>use_macrons\<close> true it is the basic romanisation after the replacements of "aa",
  "ii", "uu", "ee", "oo" and "ou", each applied to the output of the one before, in this
  order. to-u-kyo-u gives "toukyou" without and "tokyo" with macrons on both o's with
  macrons; o-u-u gives "o" followed by u with macron, since "uu" is replaced before
  "ou" is looked for.
\<close>

theorem macron_pass:
  "kana_to_romaji False use_m_before_bmp text = basic use_m_before_bmp text
   \<and> kana_to_romaji True use_m_before_bmp text =
       map_option
         (\<lambda>s. str_replace (str ''ou'') [0x014D]
                (str_replace (str ''oo'') [0x014D]
                  (str_replace (str ''ee'') [0x0113]
                    (str_replace (str ''uu'') [0x016B]
                      (str_replace (str ''ii'') [0x012B]
                        (str_replace (str ''aa'') [0x0101] s))))))
         (basic use_m_before_bmp text)
   \<and> kana_to_romaji False use_m_before_bmp [0x3068, 0x3046, 0x304D, 0x3087, 0x3046]
       = Some (str ''toukyou'')
   \<and> kana_to_romaji True use_m_before_bmp [0x3068, 0x3046, 0x304D, 0x3087, 0x3046]
       = Some (str ''t'' @ [0x014D] @ str ''ky'' @ [0x014D])
   \<and> kana_to_romaji True use_m_before_bmp [0x304A, 0x3046, 0x3046]
       = Some (str ''o'' @ [0x016B])"
proof (intro conjI)
  obtain hira where "normalize text = Some hira" by (simp add: normalize_eq)
  from basic_total [OF this] obtain out where out: "basic use_m_before_bmp text = Some out"
    by blast
  from kana_to_romaji_eq [OF out, of False]
  show "kana_to_romaji False use_m_before_bmp text = basic use_m_before_bmp text"
    by (simp add: out)
  from kana_to_romaji_eq [OF out, of True]
  show "kana_to_romaji True use_m_before_bmp text =
       map_option
         (\<lambda>s. str_replace (str ''ou'') [0x014D]
                (str_replace (str ''oo'') [0x014D]
                  (str_replace (str ''ee'') [0x0113]
                    (str_replace (str ''uu'') [0x016B]
                      (str_replace (str ''ii'') [0x012B]
                        (str_replace (str ''aa'') [0x0101] s))))))
         (basic use_m_before_bmp text)"
    by (simp add: out apply_macrons_def repl_def)
next
  show "kana_to_romaji False use_m_before_bmp [0x3068, 0x3046, 0x304D, 0x3087, 0x3046]
       = Some (str ''toukyou'')"
    by (simp add: eval_simps)
next
  show "kana_to_romaji True use_m_before_bmp [0x3068, 0x3046, 0x304D, 0x3087, 0x3046]
       = Some (str ''t'' @ [0x014D] @ str ''ky'' @ [0x014D])"
    by (simp add: eval_simps)
next
  show "kana_to_romaji True use_m_before_bmp [0x304A, 0x3046, 0x3046]
       = Some (str ''o'' @ [0x016B])"
    by (simp add: eval_simps)
qed

text \<open>
  Claim C3, amended. A character of the text outside the range U+30A1 .. U+30F6 and
  without an entry in the monograph table (so it is none of small tsu, moraic n and the
  prolonged sound mark, and starts no digraph) is kept by the normalisation, the cursor
  arrives at it, and the iteration appends it as a chunk of its own. When
  \<open>use_macrons\<close> is false, or the character is not one of the letters a, e, i, o, u,
  the result is the output for the buffer before it, then the character, then the output
  for the chunks appended after it. With \<open>use_macrons\<close> true a Latin vowel is subject
  to the macron pass like any other letter of the output: ko followed by the Latin
  letter u gives "k" and o with macron (the counterexample below).
\<close>

theorem pass_through:
  "j < length text \<and> \<not> katakana (text ! j) \<and> HIRA_MONO (text ! j) = None
     \<and> (use_macrons \<longrightarrow> text ! j \<notin> set (str ''aeiou'')) \<longrightarrow>
   (\<exists>hira r more.
      normalize text = Some hira \<and> hira ! j = text ! j
      \<and> reach use_m_before_bmp hira (j, r)
      \<and> step use_m_before_bmp hira (j, r) = Some (j + 1, r @ [[text ! j]])
      \<and> kana_to_romaji use_macrons use_m_before_bmp text =
          Some ((if use_macrons then apply_macrons (concat r) else concat r)
                @ [text ! j]
                @ (if use_macrons then apply_macrons (concat more) else concat more)))"
proof
  assume a: "j < length text \<and> \<not> katakana (text ! j) \<and> HIRA_MONO (text ! j) = None
     \<and> (use_macrons \<longrightarrow> text ! j \<notin> set (str ''aeiou''))"
  define hira where "hira = map (\<lambda>c. if katakana c then c - 0x60 else c) text"
  have n: "normalize text = Some hira" by (simp add: hira_def normalize_eq)
  from a have lt: "j < length hira" and c: "hira ! j = text ! j" by (simp_all add: hira_def)
  from a c have mono: "HIRA_MONO (hira ! j) = None" by simp
  with small_y_mono [of "hira ! j"] have "hira ! j \<notin> {0x3083, 0x3085, 0x3087}" by blast
  from reach_visits [OF lt this] obtain r where r: "reach use_m_before_bmp hira (j, r)" ..
  have st: "step use_m_before_bmp hira (j, r) = Some (j + 1, r @ [[hira ! j]])"
    by (rule step_pass_through [OF lt mono])
  from lt have "fst (j, r) < length hira" by simp
  from reach.iter [OF r this st] have "reach use_m_before_bmp hira (j + 1, r @ [[hira ! j]])" .
  from reach_final [OF this] obtain more where
    fin: "scan use_m_before_bmp hira (0, []) = Some (length hira, (r @ [[hira ! j]]) @ more)"
    by auto
  with n have b: "basic use_m_before_bmp text = Some (concat r @ hira ! j # concat more)"
    by (simp add: basic_def)
  have "kana_to_romaji use_macrons use_m_before_bmp text =
          Some ((if use_macrons then apply_macrons (concat r) else concat r)
                @ [text ! j]
                @ (if use_macrons then apply_macrons (concat more) else concat more))"
  proof (cases use_macrons)
    case True
    with a c have "hira ! j \<notin> set (str ''aeiou'')" by simp
    from apply_macrons_split [OF this] kana_to_romaji_eq [OF b, of True] True c
    show ?thesis by simp
  next
    case False
    with kana_to_romaji_eq [OF b, of False] c show ?thesis by simp
  qed
  with n c r st show "\<exists>hira r more.
      normalize text = Some hira \<and> hira ! j = text ! j
      \<and> reach use_m_before_bmp hira (j, r)
      \<and> step use_m_before_bmp hira (j, r) = Some (j + 1, r @ [[text ! j]])
      \<and> kana_to_romaji use_macrons use_m_before_bmp text =
          Some ((if use_macrons then apply_macrons (concat r) else concat r)
                @ [text ! j]
                @ (if use_macrons then apply_macrons (concat more) else concat more))"
    by (metis (no_types, lifting))
qed

theorem pass_through_witness:
  "1 < length [0x304B, 0x6F22, 0x304D :: nat]
   \<and> \<not> katakana ([0x304B, 0x6F22, 0x304D] ! 1)
   \<and> HIRA_MONO ([0x304B, 0x6F22, 0x304D] ! 1) = None
   \<and> [0x304B, 0x6F22, 0x304D] ! 1 \<notin> set (str ''aeiou'')
   \<and> (\<exists>hira r more.
        normalize [0x304B, 0x6F22, 0x304D] = Some hira \<and> hira ! 1 = [0x304B, 0x6F22, 0x304D] ! 1
        \<and> reach True hira (1, r)
        \<and> step True hira (1, r) = Some (1 + 1, r @ [[[0x304B, 0x6F22, 0x304D] ! 1]])
        \<and> kana_to_romaji True True [0x304B, 0x6F22, 0x304D] =
            Some ((if True then apply_macrons (concat r) else concat r)
                  @ [[0x304B, 0x6F22, 0x304D] ! 1]
                  @ (if True then apply_macrons (concat more) else concat more)))
   \<and> kana_to_romaji True True [0x304B, 0x6F22, 0x304D] = Some (str ''ka'' @ [0x6F22] @ str ''ki'')"
proof -
  let ?t = "[0x304B, 0x6F22, 0x304D] :: ustr"
  have a: "1 < length ?t" "\<not> katakana (?t ! 1)" "HIRA_MONO (?t ! 1) = None"
    "?t ! 1 \<notin> set (str ''aeiou'')"
    by (simp_all add: katakana_def HIRA_MONO_def HIRA_MONO_items_def str_def)
  have e: "kana_to_romaji True True ?t = Some (str ''ka'' @ [0x6F22] @ str ''ki'')"
    by (simp add: eval_simps)
  from pass_through [of 1 ?t True True] a e show ?thesis by blast
qed

theorem pass_through_counterexample:
  "\<not> katakana 0x75 \<and> HIRA_MONO 0x75 = None
   \<and> 0x75 \<noteq> SOKUON \<and> 0x75 \<noteq> MORAIC_N \<and> 0x75 \<noteq> CHOON
   \<and> [0x3053, 0x75] ! 1 = (0x75 :: nat)
   \<and> kana_to_romaji False True [0x3053, 0x75] = Some (str ''kou'')
   \<and> kana_to_romaji True True [0x3053, 0x75] = Some (str ''k'' @ [0x014D])
   \<and> 0x75 \<notin> set (str ''k'' @ [0x014D])"
  by (simp add: katakana_def SOKUON_def MORAIC_N_def CHOON_def eval_simps)

end
